theory Spec2Isabelle
  imports Complex_Main "HOL-Library.Word" "HOL-Library.AList" "HOL-Library.Multiset"
begin

unbundle bit_operations_syntax

section \<open>Python values and helpers\<close>

text \<open>
  Python strings are modelled as \<open>string\<close> (characters are code points below 256), Python
  integers as \<open>int\<close>. A Python float is a finite binary64 value, held as the real number it
  denotes; infinities and NaN are outside the model. The conversion \<open>float(i)\<close> of an integer
  rounds to 53 significant bits and raises \<open>OverflowError\<close> (\<open>float_of_int\<close> below); the
  multiplication of two floats and the conversion of a string are arguments (\<open>fmul\<close>,
  \<open>str_to_float\<close>) of the functions that use them. Exceptions are values of type \<open>error\<close>.
\<close>

datatype error = TypeError | AttributeError | ValueError | OverflowError

text \<open>\<open>xs[i:j]\<close> of Python: negative bounds count from the end, all bounds are clamped.\<close>

definition py_slice :: "'a list \<Rightarrow> int \<Rightarrow> int \<Rightarrow> 'a list" where
  "py_slice xs i j =
     (let n = int (length xs);
          i' = (if i < 0 then max (i + n) 0 else min i n);
          j' = (if j < 0 then max (j + n) 0 else min j n)
      in take (nat (j' - i')) (drop (nat i') xs))"

text \<open>\<open>str(n)\<close> of Python on integers: decimal digits, a minus sign for negatives.\<close>

definition digit_char :: "nat \<Rightarrow> char" where
  "digit_char d = char_of (48 + d)"

fun str_nat :: "nat \<Rightarrow> string" where
  "str_nat n = (if n < 10 then [digit_char n] else str_nat (n div 10) @ [digit_char (n mod 10)])"

declare str_nat.simps [simp del]

definition str_int :: "int \<Rightarrow> string" where
  "str_int i = (if i < 0 then CHR ''-'' # str_nat (nat (- i)) else str_nat (nat i))"

section \<open>SHA-256 (hashlib.sha256) and \<open>sha256_hex\<close>\<close>

type_synonym byte = "8 word"
type_synonym w32 = "32 word"

text \<open>\<open>str.encode("utf-8")\<close> for code points below 256: one byte below 128, two above.\<close>

definition utf8_char :: "char \<Rightarrow> byte list" where
  "utf8_char c =
     (let n = of_char c :: nat in
      if n < 128 then [of_nat n] else [of_nat (192 + n div 64), of_nat (128 + n mod 64)])"

definition utf8_encode :: "string \<Rightarrow> byte list" where
  "utf8_encode s = concat (map utf8_char s)"

text \<open>The round constants (cube roots of the first 64 primes) and the initial hash value
  (square roots of the first 8 primes), 32 fractional bits each, in decimal.\<close>

definition sha_k :: "w32 list" where
  "sha_k =
   [1116352408, 1899447441, 3049323471, 3921009573, 961987163, 1508970993,
    2453635748, 2870763221, 3624381080, 310598401, 607225278, 1426881987,
    1925078388, 2162078206, 2614888103, 3248222580, 3835390401, 4022224774,
    264347078, 604807628, 770255983, 1249150122, 1555081692, 1996064986,
    2554220882, 2821834349, 2952996808, 3210313671, 3336571891, 3584528711,
    113926993, 338241895, 666307205, 773529912, 1294757372, 1396182291,
    1695183700, 1986661051, 2177026350, 2456956037, 2730485921, 2820302411,
    3259730800, 3345764771, 3516065817, 3600352804, 4094571909, 275423344,
    430227734, 506948616, 659060556, 883997877, 958139571, 1322822218,
    1537002063, 1747873779, 1955562222, 2024104815, 2227730452, 2361852424,
    2428436474, 2756734187, 3204031479, 3329325298]"

definition sha_init :: "w32 list" where
  "sha_init =
   [1779033703, 3144134277, 1013904242, 2773480762,
    1359893119, 2600822924, 528734635, 1541459225]"

definition big_sigma0 :: "w32 \<Rightarrow> w32" where
  "big_sigma0 x = word_rotr 2 x XOR word_rotr 13 x XOR word_rotr 22 x"

definition big_sigma1 :: "w32 \<Rightarrow> w32" where
  "big_sigma1 x = word_rotr 6 x XOR word_rotr 11 x XOR word_rotr 25 x"

definition small_sigma0 :: "w32 \<Rightarrow> w32" where
  "small_sigma0 x = word_rotr 7 x XOR word_rotr 18 x XOR drop_bit 3 x"

definition small_sigma1 :: "w32 \<Rightarrow> w32" where
  "small_sigma1 x = word_rotr 17 x XOR word_rotr 19 x XOR drop_bit 10 x"

definition sha_ch :: "w32 \<Rightarrow> w32 \<Rightarrow> w32 \<Rightarrow> w32" where
  "sha_ch x y z = (x AND y) XOR (NOT x AND z)"

definition sha_maj :: "w32 \<Rightarrow> w32 \<Rightarrow> w32 \<Rightarrow> w32" where
  "sha_maj x y z = (x AND y) XOR (x AND z) XOR (y AND z)"

text \<open>Padding: a one bit, zeros up to 56 modulo 64 bytes, the bit length in 8 bytes.\<close>

definition len_bytes :: "nat \<Rightarrow> byte list" where
  "len_bytes n = (let w = of_nat n :: 64 word in map (\<lambda>i. ucast (drop_bit (8 * (7 - i)) w)) [0..<8])"

definition sha_pad :: "byte list \<Rightarrow> byte list" where
  "sha_pad m =
     m @ [0x80] @ replicate ((119 - length m mod 64) mod 64) 0 @ len_bytes (8 * length m)"

fun be_words :: "byte list \<Rightarrow> w32 list" where
  "be_words (a # b # c # d # r) =
     (push_bit 24 (ucast a) OR push_bit 16 (ucast b) OR push_bit 8 (ucast c) OR ucast d) # be_words r"
| "be_words _ = []"

fun extend_schedule :: "nat \<Rightarrow> w32 list \<Rightarrow> w32 list" where
  "extend_schedule 0 w = w"
| "extend_schedule (Suc n) w =
     (let t = length w in
      extend_schedule n
        (w @ [small_sigma1 (w ! (t - 2)) + w ! (t - 7) + small_sigma0 (w ! (t - 15)) + w ! (t - 16)]))"

definition sha_round :: "w32 list \<Rightarrow> w32 \<times> w32 \<Rightarrow> w32 list" where
  "sha_round s kw =
     (case s of
        [a, b, c, d, e, f, g, h] \<Rightarrow>
          (let t1 = h + big_sigma1 e + sha_ch e f g + fst kw + snd kw;
               t2 = big_sigma0 a + sha_maj a b c
           in [t1 + t2, a, b, c, d + t1, e, f, g])
      | _ \<Rightarrow> s)"

definition sha_compress :: "w32 list \<Rightarrow> w32 list \<Rightarrow> w32 list" where
  "sha_compress hs block =
     map2 (+) hs (foldl sha_round hs (zip sha_k (extend_schedule 48 block)))"

fun sha_blocks :: "nat \<Rightarrow> w32 list \<Rightarrow> w32 list \<Rightarrow> w32 list" where
  "sha_blocks 0 hs ws = hs"
| "sha_blocks (Suc n) hs ws = sha_blocks n (sha_compress hs (take 16 ws)) (drop 16 ws)"

definition sha256 :: "byte list \<Rightarrow> w32 list" where
  "sha256 m = (let ws = be_words (sha_pad m) in sha_blocks (length ws div 16) sha_init ws)"

definition hex_digit :: "nat \<Rightarrow> char" where
  "hex_digit d = (if d < 10 then char_of (48 + d) else char_of (87 + d))"

definition hex_w32 :: "w32 \<Rightarrow> string" where
  "hex_w32 w = map (\<lambda>i. hex_digit (unat (drop_bit (4 * (7 - i)) w AND 0xF))) [0..<8]"

definition hexdigest :: "w32 list \<Rightarrow> string" where
  "hexdigest hs = concat (map hex_w32 hs)"

text \<open>\<open>sha256_hex\<close> of the source on a \<open>str\<close> argument: encode as UTF-8, hash, hex digest.\<close>

definition sha256_hex :: "string \<Rightarrow> string" where
  "sha256_hex data = hexdigest (sha256 (utf8_encode data))"

section \<open>Chunker\<close>

record chunk =
  chunk_id :: string
  doc_id :: string
  chunk_index :: int
  chunk_text :: string
  start_char :: int
  end_char :: int

text \<open>The \<open>while index < text_length\<close> loop; \<open>None\<close> stands for a loop that never ends.\<close>

partial_function (option) chunk_while ::
  "string \<Rightarrow> string \<Rightarrow> int \<Rightarrow> int \<Rightarrow> int \<Rightarrow> int \<Rightarrow> chunk list \<Rightarrow> chunk list option" where
  "chunk_while d txt chunk_size step index cidx chunks =
     (if index < int (length txt) then
        (let start = index;
             end = min (start + chunk_size) (int (length txt));
             ctext = py_slice txt start end;
             chunk_hash = sha256_hex ctext;
             cid = sha256_hex (d @ str_int cidx @ chunk_hash)
         in chunk_while d txt chunk_size step (index + step) (cidx + 1)
              (chunks @ [\<lparr>chunk_id = cid, doc_id = d, chunk_index = cidx, chunk_text = ctext,
                          start_char = start, end_char = end\<rparr>]))
      else Some chunks)"

declare chunk_while.simps [code]

definition chunk_document :: "string \<Rightarrow> string \<Rightarrow> int \<Rightarrow> int \<Rightarrow> chunk list option" where
  "chunk_document d txt chunk_size overlap =
     (if txt = [] then Some []
      else chunk_while d txt chunk_size (max (chunk_size - overlap) 1) 0 0 [])"

text \<open>
  Closed form of the loop, used in the proofs: chunk number \<open>k\<close> starts at \<open>k * step\<close>, and
  there are \<open>\<lceil>len(text) / step\<rceil>\<close> chunks.
\<close>

definition chunk_at :: "string \<Rightarrow> string \<Rightarrow> int \<Rightarrow> int \<Rightarrow> nat \<Rightarrow> chunk" where
  "chunk_at d txt chunk_size step k =
     (let start = int k * step;
          end = min (start + chunk_size) (int (length txt));
          ctext = py_slice txt start end
      in \<lparr>chunk_id = sha256_hex (d @ str_int (int k) @ sha256_hex ctext), doc_id = d,
          chunk_index = int k, chunk_text = ctext, start_char = start, end_char = end\<rparr>)"

definition chunk_count :: "string \<Rightarrow> int \<Rightarrow> nat" where
  "chunk_count txt step = nat ((int (length txt) + step - 1) div step)"

section \<open>Evidence model\<close>

datatype pyval =
    PNone
  | PBool bool
  | PInt int
  | PFloat real
  | PStr string
  | PList "pyval list"
  | PDict "(string \<times> pyval) list"

record Evidence =
  source :: string
  url :: string
  retrieved_at :: string
  as_of :: string
  ev_note :: "string option"

text \<open>The dataclass \<open>Field\<close>; \<open>value: Any = None\<close> is a \<open>pyval\<close> with \<open>PNone\<close> for no value.\<close>

record Field =
  field_value :: pyval
  evidence :: "Evidence option"
  flagged :: bool
  flag_reason :: "string option"

definition Field_default :: Field where
  "Field_default = \<lparr>field_value = PNone, evidence = None, flagged = False, flag_reason = None\<rparr>"

definition flag :: "string \<Rightarrow> Field" where
  "flag reason = Field_default\<lparr>flagged := True, flag_reason := Some reason\<rparr>"

definition ok :: "pyval \<Rightarrow> Evidence \<Rightarrow> Field" where
  "ok v ev = Field_default\<lparr>field_value := v, evidence := Some ev\<rparr>"

section \<open>Reliability map\<close>

type_synonym pydict = "(string \<times> pyval) list"

text \<open>Truth value of a Python object, as \<open>if name\<close> and \<open>x or y\<close> test it.\<close>

fun py_truthy :: "pyval \<Rightarrow> bool" where
  "py_truthy PNone = False"
| "py_truthy (PBool b) = b"
| "py_truthy (PInt i) = (i \<noteq> 0)"
| "py_truthy (PFloat r) = (r \<noteq> 0)"
| "py_truthy (PStr s) = (s \<noteq> [])"
| "py_truthy (PList l) = (l \<noteq> [])"
| "py_truthy (PDict d) = (d \<noteq> [])"

text \<open>\<open>isinstance(w, (int, float))\<close>: \<open>bool\<close> is a subclass of \<open>int\<close>.\<close>

fun is_number :: "pyval \<Rightarrow> bool" where
  "is_number (PBool b) = True"
| "is_number (PInt i) = True"
| "is_number (PFloat r) = True"
| "is_number _ = False"

text \<open>The exact numeric value of a number, the value that \<open>w > 0\<close> compares.\<close>

fun num_val :: "pyval \<Rightarrow> real" where
  "num_val (PBool b) = (if b then 1 else 0)"
| "num_val (PInt i) = of_int i"
| "num_val (PFloat r) = r"
| "num_val _ = 0"

text \<open>\<open>int.bit_length\<close> of a natural number.\<close>

fun bit_length :: "nat \<Rightarrow> nat" where
  "bit_length n = (if n = 0 then 0 else Suc (bit_length (n div 2)))"

declare bit_length.simps [simp del]

text \<open>
  \<open>float(i)\<close> for an integer \<open>i\<close>: exact up to 53 bits; above, the 53 leading bits rounded to
  nearest, ties to even; \<open>OverflowError\<close> when the rounded value reaches \<open>2 ^ 1024\<close>.
\<close>

definition float_of_int :: "int \<Rightarrow> error + real" where
  "float_of_int i =
     (let a = nat \<bar>i\<bar>; n = bit_length a in
      if n \<le> 53 then Inr (of_int i)
      else
        (let e = n - 53; q = a div 2 ^ e; r = a mod 2 ^ e;
             q' = (if 2 ^ e < 2 * r \<or> (2 * r = 2 ^ e \<and> odd q) then q + 1 else q)
         in if 2 ^ 1024 \<le> q' * 2 ^ e then Inl OverflowError
            else Inr (if i < 0 then - real (q' * 2 ^ e) else real (q' * 2 ^ e))))"

text \<open>\<open>float(w)\<close> for a number \<open>w\<close> (an \<open>int\<close>, a \<open>bool\<close> or a \<open>float\<close>).\<close>

fun float_of_number :: "pyval \<Rightarrow> error + real" where
  "float_of_number (PBool b) = Inr (if b then 1 else 0)"
| "float_of_number (PInt i) = float_of_int i"
| "float_of_number (PFloat r) = Inr r"
| "float_of_number _ = Inl TypeError"

fun hashable :: "pyval \<Rightarrow> bool" where
  "hashable (PList l) = False"
| "hashable (PDict d) = False"
| "hashable _ = True"

text \<open>
  Dictionary keys that Python compares equal (\<open>1 == 1.0 == True\<close>) are the same key: numbers
  with an integral value are stored as that integer.
\<close>

fun hash_key :: "pyval \<Rightarrow> pyval" where
  "hash_key (PBool b) = PInt (if b then 1 else 0)"
| "hash_key (PFloat r) = (if of_int \<lfloor>r\<rfloor> = r then PInt \<lfloor>r\<rfloor> else PFloat r)"
| "hash_key v = v"

definition dict_get :: "pydict \<Rightarrow> string \<Rightarrow> pyval \<Rightarrow> pyval" where
  "dict_get d k dflt = (case map_of d k of None \<Rightarrow> dflt | Some v \<Rightarrow> v)"

type_synonym date = "int \<times> int \<times> int"

record Settings =
  as_of_date :: date
  log_level :: string
  sources :: pyval

text \<open>Lines 69 to 76: which object is iterated as the list of entries.\<close>

definition entries_of :: "pyval \<Rightarrow> pyval" where
  "entries_of srcs =
     (let sources_config = (if py_truthy srcs then srcs else PDict []) in
      case sources_config of
        PDict d \<Rightarrow> (if ''sources'' \<in> fst ` set d then dict_get d ''sources'' PNone else PList [])
      | PList l \<Rightarrow> PList l
      | _ \<Rightarrow> PList [])"

text \<open>\<open>for entry in entries\<close>: the items of a list, the keys of a dict, the characters of a
  string; anything else is not iterable.\<close>

fun py_iter :: "pyval \<Rightarrow> error + pyval list" where
  "py_iter (PList l) = Inr l"
| "py_iter (PDict d) = Inr (map PStr (remdups (map fst d)))"
| "py_iter (PStr s) = Inr (map (\<lambda>c. PStr [c]) s)"
| "py_iter _ = Inl TypeError"

text \<open>One pass of the loop body, lines 78 to 81; \<open>entry.get\<close> exists on dicts only;
  \<open>float(weight)\<close> is evaluated first and may raise \<open>OverflowError\<close>, then storing under an
  unhashable name raises \<open>TypeError\<close>.\<close>

definition build_step :: "(pyval \<rightharpoonup> real) \<Rightarrow> pyval \<Rightarrow> error + (pyval \<rightharpoonup> real)" where
  "build_step reliability entry =
     (case entry of
        PDict e \<Rightarrow>
          (let name = dict_get e ''name'' PNone;
               weight = dict_get e ''reliability'' PNone
           in if py_truthy name \<and> is_number weight \<and> num_val weight > 0
              then (case float_of_number weight of
                      Inl err \<Rightarrow> Inl err
                    | Inr w \<Rightarrow>
                        (if hashable name then Inr (reliability(hash_key name \<mapsto> w))
                         else Inl TypeError))
              else Inr reliability)
      | _ \<Rightarrow> Inl AttributeError)"

fun build_loop :: "(pyval \<rightharpoonup> real) \<Rightarrow> pyval list \<Rightarrow> error + (pyval \<rightharpoonup> real)" where
  "build_loop reliability [] = Inr reliability"
| "build_loop reliability (entry # entries) =
     (case build_step reliability entry of
        Inl e \<Rightarrow> Inl e
      | Inr reliability' \<Rightarrow> build_loop reliability' entries)"

definition build_reliability_map :: "Settings \<Rightarrow> error + (pyval \<rightharpoonup> real)" where
  "build_reliability_map settings =
     (case py_iter (entries_of (sources settings)) of
        Inl e \<Rightarrow> Inl e
      | Inr entries \<Rightarrow> build_loop Map.empty entries)"

text \<open>The vocabulary of the specification for one entry.\<close>

definition missing_name :: "pydict \<Rightarrow> bool" where
  "missing_name e = (\<not> py_truthy (dict_get e ''name'' PNone))"

definition positive_number :: "pyval \<Rightarrow> bool" where
  "positive_number w = (is_number w \<and> num_val w > 0)"

definition skipped_entry :: "pydict \<Rightarrow> bool" where
  "skipped_entry e = (missing_name e \<or> \<not> positive_number (dict_get e ''reliability'' PNone))"

section \<open>Reliability ranker\<close>

text \<open>\<open>reliability_map.get(src_name, 1.0)\<close>.\<close>

definition weight_for :: "(pyval \<rightharpoonup> real) \<Rightarrow> pyval \<Rightarrow> error + real" where
  "weight_for reliability_map src_name =
     (if hashable src_name
      then Inr (case reliability_map (hash_key src_name) of None \<Rightarrow> 1 | Some w \<Rightarrow> w)
      else Inl TypeError)"

text \<open>
  \<open>float(x)\<close>. The conversion of a string is the argument \<open>str_to_float\<close> (\<open>None\<close> for a
  string that \<open>float\<close> rejects with \<open>ValueError\<close>); an integer too large for a float raises
  \<open>OverflowError\<close>; \<open>None\<close>, a list and a dict raise \<open>TypeError\<close>.
\<close>

fun py_float :: "(string \<Rightarrow> real option) \<Rightarrow> pyval \<Rightarrow> error + real" where
  "py_float str_to_float (PStr s) =
     (case str_to_float s of None \<Rightarrow> Inl ValueError | Some r \<Rightarrow> Inr r)"
| "py_float str_to_float v = float_of_number v"

text \<open>Lines 150 to 153: \<open>try: score = float(res.get("score", 0)) except Exception: score = 0.0\<close>.\<close>

definition score_of :: "(string \<Rightarrow> real option) \<Rightarrow> pydict \<Rightarrow> real" where
  "score_of str_to_float res =
     (case py_float str_to_float (dict_get res ''score'' (PInt 0)) of
        Inl e \<Rightarrow> 0
      | Inr score \<Rightarrow> score)"

text \<open>A score that is missing, or that \<open>float\<close> rejects.\<close>

definition malformed_score :: "(string \<Rightarrow> real option) \<Rightarrow> pydict \<Rightarrow> bool" where
  "malformed_score str_to_float res =
     (case map_of res ''score'' of
        None \<Rightarrow> True
      | Some v \<Rightarrow> isl (py_float str_to_float v))"

text \<open>Lines 148 to 154, the body of the weighting loop for one result; \<open>fmul\<close> is the
  multiplication of floats.\<close>

definition weigh_one ::
  "(string \<Rightarrow> real option) \<Rightarrow> (real \<Rightarrow> real \<Rightarrow> real) \<Rightarrow> (pyval \<rightharpoonup> real) \<Rightarrow> pydict \<Rightarrow>
   error + pydict" where
  "weigh_one str_to_float fmul reliability_map res =
     (let src_name = dict_get res ''source_name'' PNone in
      case weight_for reliability_map src_name of
        Inl e \<Rightarrow> Inl e
      | Inr weight \<Rightarrow>
          Inr (AList.update ''weighted_score'' (PFloat (fmul (score_of str_to_float res) weight))
                 res))"

fun apply_weights ::
  "(string \<Rightarrow> real option) \<Rightarrow> (real \<Rightarrow> real \<Rightarrow> real) \<Rightarrow> (pyval \<rightharpoonup> real) \<Rightarrow> pydict list \<Rightarrow>
   error + pydict list" where
  "apply_weights str_to_float fmul reliability_map [] = Inr []"
| "apply_weights str_to_float fmul reliability_map (res # rest) =
     (case weigh_one str_to_float fmul reliability_map res of
        Inl e \<Rightarrow> Inl e
      | Inr res' \<Rightarrow>
          (case apply_weights str_to_float fmul reliability_map rest of
             Inl e \<Rightarrow> Inl e
           | Inr rest' \<Rightarrow> Inr (res' # rest')))"

text \<open>
  \<open>sorted(xs, key=key, reverse=True)\<close>: a stable sort into descending order of the key, as an
  insertion sort that puts an element before the elements with an equal or smaller key that
  followed it in the input.
\<close>

fun insort_desc :: "('a \<Rightarrow> 'k::linorder) \<Rightarrow> 'a \<Rightarrow> 'a list \<Rightarrow> 'a list" where
  "insort_desc key x [] = [x]"
| "insort_desc key x (y # ys) =
     (if key y \<le> key x then x # y # ys else y # insort_desc key x ys)"

definition py_sorted_desc :: "('a \<Rightarrow> 'k::linorder) \<Rightarrow> 'a list \<Rightarrow> 'a list" where
  "py_sorted_desc key xs = foldr (insort_desc key) xs []"

text \<open>The sort key \<open>r.get("weighted_score", 0)\<close>; after the weighting loop it is a float.\<close>

definition weighted_key :: "pydict \<Rightarrow> real" where
  "weighted_key r = num_val (dict_get r ''weighted_score'' (PInt 0))"

text \<open>Lines 147 to 158: weighting, sort, truncation \<open>ranked[:top_k]\<close>.\<close>

definition rank ::
  "(string \<Rightarrow> real option) \<Rightarrow> (real \<Rightarrow> real \<Rightarrow> real) \<Rightarrow> (pyval \<rightharpoonup> real) \<Rightarrow> int \<Rightarrow> pydict list \<Rightarrow>
   error + pydict list" where
  "rank str_to_float fmul reliability_map top_k raw_results =
     (case apply_weights str_to_float fmul reliability_map raw_results of
        Inl e \<Rightarrow> Inl e
      | Inr weighted \<Rightarrow> Inr (py_slice (py_sorted_desc weighted_key weighted) 0 top_k))"

text \<open>
  \<open>query_endpoint\<close>, with the settings read by \<open>load_settings\<close> and the list returned by
  \<open>query_index\<close> as arguments.
\<close>

definition query_endpoint ::
  "(string \<Rightarrow> real option) \<Rightarrow> (real \<Rightarrow> real \<Rightarrow> real) \<Rightarrow> Settings \<Rightarrow> pydict list \<Rightarrow> int \<Rightarrow>
   error + pydict list" where
  "query_endpoint str_to_float fmul settings raw_results top_k =
     (case build_reliability_map settings of
        Inl e \<Rightarrow> Inl e
      | Inr reliability_map \<Rightarrow> rank str_to_float fmul reliability_map top_k raw_results)"

section \<open>Evidence model: constructors\<close>

text \<open>
  C9: \<open>flag(reason)\<close> has no value, no evidence, is flagged and carries the reason;
  \<open>ok(value, evidence)\<close> carries the value and the evidence, is not flagged and has no reason.
\<close>

theorem flag_ok_fields:
  "field_value (flag reason) = PNone \<and> evidence (flag reason) = None \<and>
   flagged (flag reason) = True \<and> flag_reason (flag reason) = Some reason \<and>
   field_value (ok v ev) = v \<and> evidence (ok v ev) = Some ev \<and>
   flagged (ok v ev) = False \<and> flag_reason (ok v ev) = None"
  by (simp add: flag_def ok_def Field_default_def)

section \<open>Chunker: the loop in closed form\<close>

text \<open>
  For a positive divisor, \<open>k \<le> a div s\<close> says that \<open>k\<close> steps fit below \<open>a\<close>.
\<close>

lemma le_div_iff_int:
  fixes k a s :: int
  assumes "0 < s"
  shows "(k \<le> a div s) = (k * s \<le> a)"
proof
  assume "k \<le> a div s"
  then have "k * s \<le> (a div s) * s" using assms by (simp add: mult_right_mono)
  also have "\<dots> \<le> a"
  proof -
    have "a = (a div s) * s + a mod s" by simp
    moreover have "0 \<le> a mod s" using assms by simp
    ultimately show ?thesis by linarith
  qed
  finally show "k * s \<le> a" .
next
  assume "k * s \<le> a"
  then have "(k * s) div s \<le> a div s" using assms by (rule zdiv_mono1)
  then show "k \<le> a div s" using assms by simp
qed

lemma count_iff:
  assumes "1 \<le> step"
  shows "(int k * step < int (length txt)) = (k < chunk_count txt step)"
proof -
  let ?L = "int (length txt)"
  have pos: "0 < step" using assms by simp
  have "(int k + 1 \<le> (?L + step - 1) div step) = ((int k + 1) * step \<le> ?L + step - 1)"
    using pos by (rule le_div_iff_int)
  also have "\<dots> = (int k * step < ?L)" by (auto simp: algebra_simps)
  finally have "(int k < (?L + step - 1) div step) = (int k * step < ?L)"
    by (simp add: zless_iff_Suc_zadd add1_zle_eq)
  then show ?thesis unfolding chunk_count_def by (simp add: nat_less_iff zless_nat_eq_int_zless)
qed

text \<open>
  With a step of at least 1 the loop returns: from chunk \<open>k\<close> on it appends the chunks
  \<open>k, k + 1, \<dots>\<close> of the closed form. Induction on the number of chunks still to come.
\<close>

lemma chunk_while_closed:
  assumes "1 \<le> step"
  shows "chunk_while d txt cs step (int k * step) (int k) acc =
         Some (acc @ map (chunk_at d txt cs step) [k..<chunk_count txt step])"
proof (induction "chunk_count txt step - k" arbitrary: k acc)
  case 0
  then have "\<not> k < chunk_count txt step" by simp
  then have "\<not> int k * step < int (length txt)" using count_iff [OF assms] by simp
  then show ?case using 0 by (subst chunk_while.simps) simp
next
  case (Suc n)
  then have lt: "k < chunk_count txt step" by simp
  then have run: "int k * step < int (length txt)" using count_iff [OF assms] by simp
  have n: "n = chunk_count txt step - Suc k" using Suc.hyps(2) by simp
  have next_idx: "int k * step + step = int (Suc k) * step" by (simp add: algebra_simps)
  have "chunk_while d txt cs step (int k * step) (int k) acc =
        chunk_while d txt cs step (int k * step + step) (int k + 1)
          (acc @ [chunk_at d txt cs step k])"
    using run by (subst chunk_while.simps) (simp add: Let_def chunk_at_def)
  also have "\<dots> = chunk_while d txt cs step (int (Suc k) * step) (int (Suc k))
          (acc @ [chunk_at d txt cs step k])"
    by (simp only: next_idx) (simp add: add.commute)
  also have "\<dots> = Some ((acc @ [chunk_at d txt cs step k]) @
                     map (chunk_at d txt cs step) [Suc k..<chunk_count txt step])"
    using Suc.hyps(1) [OF n] .
  also have "\<dots> = Some (acc @ map (chunk_at d txt cs step) [k..<chunk_count txt step])"
    using lt by (simp add: upt_conv_Cons)
  finally show ?case .
qed

lemma chunk_document_closed:
  "chunk_document d txt cs ov =
   Some (map (chunk_at d txt cs (max (cs - ov) 1)) [0..<chunk_count txt (max (cs - ov) 1)])"
proof (cases "txt = []")
  case True
  then show ?thesis by (simp add: chunk_document_def chunk_count_def)
next
  case False
  have "chunk_while d txt cs (max (cs - ov) 1) (int 0 * max (cs - ov) 1) (int 0) [] =
        Some ([] @ map (chunk_at d txt cs (max (cs - ov) 1)) [0..<chunk_count txt (max (cs - ov) 1)])"
    by (rule chunk_while_closed) simp
  then show ?thesis using False by (simp add: chunk_document_def)
qed

lemma chunk_at_simps:
  "start_char (chunk_at d txt cs step k) = int k * step"
  "end_char (chunk_at d txt cs step k) = min (int k * step + cs) (int (length txt))"
  "chunk_index (chunk_at d txt cs step k) = int k"
  "doc_id (chunk_at d txt cs step k) = d"
  "chunk_text (chunk_at d txt cs step k) =
     py_slice txt (int k * step) (min (int k * step + cs) (int (length txt)))"
  "chunk_id (chunk_at d txt cs step k) =
     sha256_hex (d @ str_int (int k) @ sha256_hex (chunk_text (chunk_at d txt cs step k)))"
  by (simp_all add: chunk_at_def Let_def)

lemma chunk_count_le_length:
  assumes "1 \<le> step"
  shows "chunk_count txt step \<le> length txt"
proof (rule ccontr)
  assume "\<not> chunk_count txt step \<le> length txt"
  then have "length txt < chunk_count txt step" by simp
  then have "int (length txt) * step < int (length txt)"
    using count_iff [OF assms, of "length txt" "txt"] by simp
  moreover have "int (length txt) * 1 \<le> int (length txt) * step"
    using assms by (intro mult_left_mono) simp_all
  ultimately show False by simp
qed

section \<open>Chunker: termination, offsets, coverage\<close>

text \<open>
  C2: \<open>chunk_document\<close> returns for every input (the loop is the partial function
  \<open>chunk_while\<close>, and \<open>Some\<close> is a returned list), whatever the chunk size and the overlap,
  because the step \<open>max (chunk_size - overlap) 1\<close> is at least 1; it emits at most
  \<open>len(text)\<close> chunks. For a text of 100 characters, chunk size 4 and overlap 10 it returns
  100 chunks.
\<close>

theorem chunk_document_terminates:
  "(\<exists>chunks. chunk_document d txt chunk_size overlap = Some chunks \<and>
      length chunks \<le> length txt) \<and>
   (\<exists>chunks. chunk_document ''d'' (replicate 100 CHR ''x'') 4 10 = Some chunks \<and>
      length chunks = 100)"
proof
  have "chunk_count txt (max (chunk_size - overlap) 1) \<le> length txt"
    by (rule chunk_count_le_length) simp
  then show "\<exists>chunks. chunk_document d txt chunk_size overlap = Some chunks \<and>
      length chunks \<le> length txt"
    by (simp add: chunk_document_closed)
next
  show "\<exists>chunks. chunk_document ''d'' (replicate 100 CHR ''x'') 4 10 = Some chunks \<and>
      length chunks = 100"
    by (simp add: chunk_document_closed chunk_count_def)
qed

text \<open>
  C8, as amended: for a chunk size of at least 1 (the precondition of the chunker, which the
  code does not check), every emitted chunk has
  \<open>start_char < end_char \<le> len(text)\<close>, the chunk at position \<open>i\<close> has \<open>chunk_index = i\<close>,
  and \<open>start_char\<close> and \<open>end_char\<close> do not decrease as the index grows.
\<close>

theorem chunk_offsets_ordered:
  assumes "1 \<le> chunk_size"
  shows "\<exists>chunks. chunk_document d txt chunk_size overlap = Some chunks \<and>
    (\<forall>i. i < length chunks \<longrightarrow>
       chunk_index (chunks ! i) = int i \<and>
       start_char (chunks ! i) < end_char (chunks ! i) \<and>
       end_char (chunks ! i) \<le> int (length txt)) \<and>
    (\<forall>i j. i \<le> j \<and> j < length chunks \<longrightarrow>
       start_char (chunks ! i) \<le> start_char (chunks ! j) \<and>
       end_char (chunks ! i) \<le> end_char (chunks ! j))"
proof -
  define step where "step = max (chunk_size - overlap) 1"
  define n where "n = chunk_count txt step"
  have step1: "1 \<le> step" by (simp add: step_def)
  have cd: "chunk_document d txt chunk_size overlap = Some (map (chunk_at d txt chunk_size step) [0..<n])"
    by (simp add: chunk_document_closed step_def n_def)
  have a: "\<forall>i. i < n \<longrightarrow> int i * step < min (int i * step + chunk_size) (int (length txt))"
    using count_iff [OF step1, of _ "txt"] assms by (simp add: n_def)
  have b: "\<forall>i j. i \<le> j \<longrightarrow> int i * step \<le> int j * step"
    using step1 by (simp add: mult_right_mono)
  have c: "\<forall>i j. i \<le> j \<longrightarrow>
      min (int i * step + chunk_size) (int (length txt)) \<le>
      min (int j * step + chunk_size) (int (length txt))"
  proof (intro allI impI)
    fix i j :: nat
    assume "i \<le> j"
    then have "int i * step \<le> int j * step" using b by simp
    then show "min (int i * step + chunk_size) (int (length txt)) \<le>
      min (int j * step + chunk_size) (int (length txt))"
      by (intro min.mono) simp_all
  qed
  show ?thesis
    unfolding cd using a b c by (simp add: chunk_at_simps)
qed

theorem chunk_offsets_ordered_witness:
  "(1::int) \<le> 4 \<and>
   map_option (map (\<lambda>c. (chunk_index c, start_char c, end_char c)))
     (chunk_document ''d'' ''ABCDEFGHIJ'' 4 10) =
   Some [(0, 0, 4), (1, 1, 5), (2, 2, 6), (3, 3, 7), (4, 4, 8), (5, 5, 9), (6, 6, 10),
         (7, 7, 10), (8, 8, 10), (9, 9, 10)] \<and>
   (\<exists>chunks. chunk_document ''d'' ''ABCDEFGHIJ'' 4 10 = Some chunks \<and>
    (\<forall>i. i < length chunks \<longrightarrow>
       chunk_index (chunks ! i) = int i \<and>
       start_char (chunks ! i) < end_char (chunks ! i) \<and>
       end_char (chunks ! i) \<le> int (length ''ABCDEFGHIJ'')) \<and>
    (\<forall>i j. i \<le> j \<and> j < length chunks \<longrightarrow>
       start_char (chunks ! i) \<le> start_char (chunks ! j) \<and>
       end_char (chunks ! i) \<le> end_char (chunks ! j)))"
proof -
  have h: "(1::int) \<le> 4" by simp
  have e: "map_option (map (\<lambda>c. (chunk_index c, start_char c, end_char c)))
     (chunk_document ''d'' ''ABCDEFGHIJ'' 4 10) =
   Some [(0, 0, 4), (1, 1, 5), (2, 2, 6), (3, 3, 7), (4, 4, 8), (5, 5, 9), (6, 6, 10),
         (7, 7, 10), (8, 8, 10), (9, 9, 10)]"
    by (simp add: chunk_document_closed chunk_count_def chunk_at_simps upt_rec)
  show ?thesis
    using h e chunk_offsets_ordered [OF h, of "''d''" "''ABCDEFGHIJ''" 10] by blast
qed

text \<open>
  The claim as stated, for every chunk size, fails: the code has no guard on \<open>chunk_size\<close>,
  and with chunk size 0 every emitted chunk is empty, \<open>start_char = end_char\<close>.
\<close>

theorem chunk_size_zero_counterexample:
  "map_option (map (\<lambda>c. (chunk_index c, chunk_text c, start_char c, end_char c)))
     (chunk_document ''d'' ''ab'' 0 0) =
   Some [(0, '''', 0, 0), (1, '''', 1, 1)] \<and>
   (\<exists>chunks. chunk_document ''d'' ''ab'' 0 0 = Some chunks \<and>
      \<not> start_char (chunks ! 0) < end_char (chunks ! 0))"
  by (simp add: chunk_document_closed chunk_count_def chunk_at_simps upt_rec py_slice_def)

lemma windows_cover:
  assumes "1 \<le> step" and "step \<le> cs"
  shows "(\<Union>c\<in>set (map (chunk_at d txt cs step) [0..<chunk_count txt step]).
            {start_char c..<end_char c}) = {0..<int (length txt)}"
proof (intro set_eqI iffI)
  fix x
  assume "x \<in> (\<Union>c\<in>set (map (chunk_at d txt cs step) [0..<chunk_count txt step]).
            {start_char c..<end_char c})"
  then obtain k where k: "k < chunk_count txt step" "int k * step \<le> x"
      "x < min (int k * step + cs) (int (length txt))"
    by (auto simp: chunk_at_simps)
  have "0 \<le> int k * step" using assms(1) by simp
  then show "x \<in> {0..<int (length txt)}" using k by simp
next
  fix x
  assume "x \<in> {0..<int (length txt)}"
  then have x: "0 \<le> x" "x < int (length txt)" by simp_all
  have pos: "0 < step" using assms(1) by simp
  define k where "k = nat (x div step)"
  have k_int: "int k = x div step" using x pos by (simp add: k_def pos_imp_zdiv_nonneg_iff)
  have lo: "int k * step \<le> x"
  proof -
    have "x = (x div step) * step + x mod step" by simp
    moreover have "0 \<le> x mod step" using pos by simp
    ultimately show ?thesis unfolding k_int by linarith
  qed
  have hi: "x < int k * step + step"
  proof -
    have "x = (x div step) * step + x mod step" by simp
    moreover have "x mod step < step" using pos by simp
    ultimately show ?thesis unfolding k_int by linarith
  qed
  have "int k * step < int (length txt)" using lo x by simp
  then have kn: "k < chunk_count txt step" using count_iff [OF assms(1)] by simp
  have "x < min (int k * step + cs) (int (length txt))" using hi assms(2) x by simp
  then show "x \<in> (\<Union>c\<in>set (map (chunk_at d txt cs step) [0..<chunk_count txt step]).
            {start_char c..<end_char c})"
    using kn lo by (auto simp: chunk_at_simps intro!: bexI [of _ k])
qed

text \<open>
  C1, as amended: for a non-empty text, a chunk size of at least 1 and an overlap of at least
  0, the windows \<open>[start_char, end_char)\<close> of the emitted chunks cover exactly
  \<open>[0, len(text))\<close>. Window \<open>i\<close> starts at \<open>i * max (chunk_size - overlap) 1\<close> and ends at
  \<open>min (start_char + chunk_size) len(text)\<close>. Two consecutive windows share at most \<open>overlap\<close>
  characters, and exactly \<open>overlap\<close> when \<open>overlap < chunk_size\<close> and the earlier window is not
  cut at the end of the text (\<open>start_char + chunk_size \<le> len(text)\<close>).
\<close>

theorem chunk_windows_cover:
  assumes "txt \<noteq> []" and "1 \<le> chunk_size" and "0 \<le> overlap"
  shows "\<exists>chunks. chunk_document d txt chunk_size overlap = Some chunks \<and> chunks \<noteq> [] \<and>
    (\<Union>c\<in>set chunks. {start_char c..<end_char c}) = {0..<int (length txt)} \<and>
    (\<forall>i. i < length chunks \<longrightarrow>
       start_char (chunks ! i) = int i * max (chunk_size - overlap) 1 \<and>
       end_char (chunks ! i) = min (start_char (chunks ! i) + chunk_size) (int (length txt))) \<and>
    (\<forall>i. Suc i < length chunks \<longrightarrow>
       start_char (chunks ! Suc i) = start_char (chunks ! i) + max (chunk_size - overlap) 1 \<and>
       end_char (chunks ! i) - start_char (chunks ! Suc i) \<le> overlap \<and>
       (overlap < chunk_size \<and> start_char (chunks ! i) + chunk_size \<le> int (length txt) \<longrightarrow>
          end_char (chunks ! i) = start_char (chunks ! i) + chunk_size \<and>
          end_char (chunks ! i) - start_char (chunks ! Suc i) = overlap))"
proof -
  define step where "step = max (chunk_size - overlap) 1"
  define n where "n = chunk_count txt step"
  have step1: "1 \<le> step" by (simp add: step_def)
  have step_le: "step \<le> chunk_size" using assms by (simp add: step_def)
  have cd: "chunk_document d txt chunk_size overlap =
      Some (map (chunk_at d txt chunk_size step) [0..<n])"
    by (simp add: chunk_document_closed step_def n_def)
  have "int 0 * step < int (length txt)" using assms(1) by simp
  then have "0 < n" unfolding n_def using count_iff [OF step1, of 0 "txt"] by simp
  then have ne: "map (chunk_at d txt chunk_size step) [0..<n] \<noteq> []" by simp
  have cover: "(\<Union>c\<in>set (map (chunk_at d txt chunk_size step) [0..<n]).
      {start_char c..<end_char c}) = {0..<int (length txt)}"
    unfolding n_def using step1 step_le by (rule windows_cover)
  have nxt: "\<forall>i. int (Suc i) * step = int i * step + step" by (simp add: algebra_simps)
  have ov: "\<forall>i. min (int i * step + chunk_size) (int (length txt)) - (int i * step + step)
      \<le> overlap"
    by (auto simp: step_def min_def)
  have full: "overlap < chunk_size \<longrightarrow> chunk_size - step = overlap" by (auto simp: step_def)
  show ?thesis
    unfolding cd step_def [symmetric] using ne cover nxt ov full
    by (simp add: chunk_at_simps del: of_nat_Suc)
qed

lemma example_windows:
  "map_option (map (\<lambda>c. (chunk_index c, chunk_text c, start_char c, end_char c)))
     (chunk_document ''doc1'' ''ABCDEFGHIJ'' 4 1) =
   Some [(0, ''ABCD'', 0, 4), (1, ''DEFG'', 3, 7), (2, ''GHIJ'', 6, 10), (3, ''J'', 9, 10)]"
  by (simp add: chunk_document_closed chunk_count_def chunk_at_simps upt_rec py_slice_def)

theorem chunk_windows_cover_witness:
  "''ABCDEFGHIJ'' \<noteq> [] \<and> (1::int) \<le> 4 \<and> (0::int) \<le> 1 \<and>
   map_option (map (\<lambda>c. (chunk_index c, chunk_text c, start_char c, end_char c)))
     (chunk_document ''doc1'' ''ABCDEFGHIJ'' 4 1) =
   Some [(0, ''ABCD'', 0, 4), (1, ''DEFG'', 3, 7), (2, ''GHIJ'', 6, 10), (3, ''J'', 9, 10)] \<and>
   (\<exists>chunks. chunk_document ''doc1'' ''ABCDEFGHIJ'' 4 1 = Some chunks \<and> chunks \<noteq> [] \<and>
    (\<Union>c\<in>set chunks. {start_char c..<end_char c}) = {0..<int (length ''ABCDEFGHIJ'')} \<and>
    (\<forall>i. i < length chunks \<longrightarrow>
       start_char (chunks ! i) = int i * max (4 - 1) 1 \<and>
       end_char (chunks ! i) = min (start_char (chunks ! i) + 4) (int (length ''ABCDEFGHIJ''))) \<and>
    (\<forall>i. Suc i < length chunks \<longrightarrow>
       start_char (chunks ! Suc i) = start_char (chunks ! i) + max (4 - 1) 1 \<and>
       end_char (chunks ! i) - start_char (chunks ! Suc i) \<le> 1 \<and>
       (1 < (4::int) \<and> start_char (chunks ! i) + 4 \<le> int (length ''ABCDEFGHIJ'') \<longrightarrow>
          end_char (chunks ! i) = start_char (chunks ! i) + 4 \<and>
          end_char (chunks ! i) - start_char (chunks ! Suc i) = 1)))"
proof -
  have h: "''ABCDEFGHIJ'' \<noteq> []" "(1::int) \<le> 4" "(0::int) \<le> 1" by simp_all
  show ?thesis
    using h example_windows chunk_windows_cover [OF h, of "''doc1''"] by blast
qed

text \<open>
  The claim as stated fails in two ways. With chunk size 1 and overlap 1 the step is floored at
  1, and the first two of the three windows of \<open>abc\<close> share no character, not one. With chunk
  size 5 and overlap 4 on a text of 10 characters, the windows 6 and 7 (neither is the final
  chunk) are both cut at the end of the text and share 3 characters, not 4.
\<close>

theorem chunk_overlap_counterexample:
  "map_option (map (\<lambda>c. (start_char c, end_char c))) (chunk_document ''d'' ''abc'' 1 1) =
     Some [(0, 1), (1, 2), (2, 3)] \<and>
   (\<exists>chunks. chunk_document ''d'' ''abc'' 1 1 = Some chunks \<and> length chunks = 3 \<and>
      end_char (chunks ! 0) - start_char (chunks ! 1) \<noteq> 1) \<and>
   map_option (map (\<lambda>c. (start_char c, end_char c))) (chunk_document ''d'' ''ABCDEFGHIJ'' 5 4) =
     Some [(0, 5), (1, 6), (2, 7), (3, 8), (4, 9), (5, 10), (6, 10), (7, 10), (8, 10), (9, 10)] \<and>
   (\<exists>chunks. chunk_document ''d'' ''ABCDEFGHIJ'' 5 4 = Some chunks \<and> length chunks = 10 \<and>
      end_char (chunks ! 6) - start_char (chunks ! 7) \<noteq> 4)"
  by (simp add: chunk_document_closed chunk_count_def chunk_at_simps upt_rec)

section \<open>Chunker: content-addressed identifiers\<close>

text \<open>The model of \<open>hashlib.sha256\<close> on the test vector \<open>"abc"\<close>.\<close>

lemma sha256_hex_abc:
  "sha256_hex ''abc'' = ''ba7816bf8f01cfea414140de5dae2223b00361a396177a9cb410ff61f20015ad''"
  by code_simp




















section \<open>Conversion of integers to floats\<close>

lemma bit_length_lower: "0 < n \<Longrightarrow> 2 ^ (bit_length n - 1) \<le> n"
proof (induction n rule: bit_length.induct)
  case (1 n)
  show ?case
  proof (cases "n div 2 = 0")
    case True
    then have "bit_length (n div 2) = 0" by (simp add: bit_length.simps)
    with 1(2) show ?thesis by (simp add: bit_length.simps [of n])
  next
    case False
    then have pos: "0 < n div 2" by simp
    from 1(1) [OF _ pos] 1(2) have ih: "2 ^ (bit_length (n div 2) - 1) \<le> n div 2" by simp
    have "0 < bit_length (n div 2)" using pos by (simp add: bit_length.simps [of "n div 2"])
    then have "bit_length n - 1 = Suc (bit_length (n div 2) - 1)"
      using 1(2) by (simp add: bit_length.simps [of n])
    then have "(2::nat) ^ (bit_length n - 1) = 2 * 2 ^ (bit_length (n div 2) - 1)" by simp
    also have "\<dots> \<le> 2 * (n div 2)" using ih by simp
    also have "\<dots> \<le> n" by simp
    finally show ?thesis .
  qed
qed

lemma float_of_int_pos:
  assumes "0 < i" and "float_of_int i = Inr w"
  shows "0 < w"
proof (cases "bit_length (nat \<bar>i\<bar>) \<le> 53")
  case True
  with assms show ?thesis by (simp add: float_of_int_def Let_def)
next
  case False
  define a where "a = nat \<bar>i\<bar>"
  define e where "e = bit_length a - 53"
  define q where "q = a div 2 ^ e"
  define q' where "q' = (if 2 ^ e < 2 * (a mod 2 ^ e) \<or> (2 * (a mod 2 ^ e) = 2 ^ e \<and> odd q) then q + 1 else q)"
  have apos: "0 < a" using assms(1) by (simp add: a_def)
  have "(2::nat) ^ e \<le> 2 ^ (bit_length a - 1)" by (rule power_increasing) (simp_all add: e_def)
  also have "\<dots> \<le> a" by (rule bit_length_lower [OF apos])
  finally have "2 ^ e \<le> a" .
  then have qpos: "0 < q" by (simp add: q_def div_greater_zero_iff)
  then have q'pos: "0 < q'" by (simp add: q'_def)
  have "float_of_int i =
    (if 2 ^ 1024 \<le> q' * 2 ^ e then Inl OverflowError else Inr (real (q' * 2 ^ e)))"
    using False assms(1) unfolding float_of_int_def Let_def q'_def q_def e_def a_def by simp
  with assms(2) have "w = real (q' * 2 ^ e)" by (simp split: if_splits)
  with q'pos show ?thesis by simp
qed

lemma float_of_number_pos:
  "is_number v \<Longrightarrow> 0 < num_val v \<Longrightarrow> float_of_number v = Inr w \<Longrightarrow> 0 < w"
  by (cases v) (auto split: if_splits dest: float_of_int_pos)

lemma bit_length_pow2: "bit_length (2 ^ k) = Suc k"
  by (induction k) (simp_all add: bit_length.simps [of "2 * _"] bit_length.simps [of "Suc 0"] bit_length.simps [of 0])

lemma float_of_int_pow2:
  assumes "53 \<le> k"
  shows "float_of_int (2 ^ k) = (if 1024 \<le> k then Inl OverflowError else Inr (2 ^ k))"
proof -
  have a: "nat \<bar>2 ^ k :: int\<bar> = 2 ^ k" by (simp add: nat_power_eq)
  have e: "Suc k - 53 = k - 52" using assms by simp
  have k: "k = 52 + (k - 52)" using assms by simp
  have q: "(2::nat) ^ k div 2 ^ (k - 52) = 2 ^ 52"
    by (subst k, subst power_add) simp
  have r: "(2::nat) ^ k mod 2 ^ (k - 52) = 0"
    by (subst k, subst power_add) simp
  have v: "(2::nat) ^ 52 * 2 ^ (k - 52) = 2 ^ k"
    using k by (metis power_add)
  have le: "((2::nat) ^ 1024 \<le> 2 ^ k) = (1024 \<le> k)" by (rule power_increasing_iff) simp
  have n: "\<not> Suc k \<le> 53" using assms by simp
  have q': "(if (2::nat) ^ (k - 52) < 0 \<or> 0 = (2::nat) ^ (k - 52) \<and> odd ((2::nat) ^ 52)
             then (2::nat) ^ 52 + 1 else 2 ^ 52) = 2 ^ 52" by simp
  show ?thesis
    apply (simp only: float_of_int_def Let_def a bit_length_pow2 e q r n if_False mult_zero_right)
    apply (simp only: q' v le)
    apply simp
    done
qed

lemma float_rounds: "float_of_int (2 ^ 53 + 1) = Inr (2 ^ 53)"
proof -
  have "bit_length (nat (2 ^ 53 + 1)) = 54" by (simp add: bit_length.simps)
  then show ?thesis
    by (simp add: float_of_int_def Let_def)
qed


section \<open>Reliability map: absent configuration, skipped entries\<close>

lemma entries_of_absent:
  assumes "srcs = PNone \<or>
           (\<exists>d. srcs = PDict d \<and> ''sources'' \<notin> fst ` set d) \<or>
           ((\<forall>l. srcs \<noteq> PList l) \<and> (\<forall>d. srcs \<noteq> PDict d))"
  shows "entries_of srcs = PList []"
  using assms by (cases srcs) (auto simp: entries_of_def Let_def)

text \<open>
  C10: when the configured \<open>sources\<close> is \<open>None\<close>, or a mapping without the key \<open>"sources"\<close>,
  or neither a list nor a mapping, \<open>_build_reliability_map\<close> returns the empty map without
  raising; every hashable source name then gets the default weight 1.0, and the query ranks
  with the empty map.
\<close>

theorem absent_sources_empty_map:
  assumes "sources settings = PNone \<or>
           (\<exists>d. sources settings = PDict d \<and> ''sources'' \<notin> fst ` set d) \<or>
           ((\<forall>l. sources settings \<noteq> PList l) \<and> (\<forall>d. sources settings \<noteq> PDict d))"
  shows "build_reliability_map settings = Inr Map.empty \<and>
         (\<forall>src. hashable src \<longrightarrow> weight_for Map.empty src = Inr 1) \<and>
         query_endpoint str_to_float fmul settings raw_results top_k =
           rank str_to_float fmul Map.empty top_k raw_results"
proof -
  have "entries_of (sources settings) = PList []"
    by (rule entries_of_absent [OF assms])
  then have "build_reliability_map settings = Inr Map.empty"
    by (simp add: build_reliability_map_def)
  then show ?thesis
    by (simp add: query_endpoint_def weight_for_def)
qed

text \<open>The three shapes on concrete settings: \<open>None\<close>, a mapping whose only key is
  \<open>"other"\<close>, and a string.\<close>

theorem absent_sources_empty_map_witness:
  "build_reliability_map
     \<lparr>as_of_date = (2024, 1, 1), log_level = ''INFO'', sources = PNone\<rparr> = Inr Map.empty \<and>
   build_reliability_map
     \<lparr>as_of_date = (2024, 1, 1), log_level = ''INFO'',
      sources = PDict [(''other'', PList [PDict [(''name'', PStr ''A''), (''reliability'', PInt 2)]])]\<rparr>
     = Inr Map.empty \<and>
   build_reliability_map
     \<lparr>as_of_date = (2024, 1, 1), log_level = ''INFO'', sources = PStr ''A''\<rparr> = Inr Map.empty \<and>
   weight_for Map.empty (PStr ''A'') = Inr 1"
  using absent_sources_empty_map
          [of "\<lparr>as_of_date = (2024, 1, 1), log_level = ''INFO'', sources = PNone\<rparr>"]
        absent_sources_empty_map
          [of "\<lparr>as_of_date = (2024, 1, 1), log_level = ''INFO'',
                sources = PDict [(''other'', PList [PDict [(''name'', PStr ''A''), (''reliability'', PInt 2)]])]\<rparr>"]
        absent_sources_empty_map
          [of "\<lparr>as_of_date = (2024, 1, 1), log_level = ''INFO'', sources = PStr ''A''\<rparr>"]
  by simp

lemma build_step_skipped: "skipped_entry e \<Longrightarrow> build_step m (PDict e) = Inr m"
  by (auto simp: build_step_def skipped_entry_def missing_name_def positive_number_def Let_def)

lemma build_step_valid:
  assumes "\<not> skipped_entry e"
    and "hashable (dict_get e ''name'' PNone)"
    and "\<not> isl (float_of_number (dict_get e ''reliability'' PNone))"
  shows "\<exists>w. 0 < w \<and>
           build_step m (PDict e) = Inr (m(hash_key (dict_get e ''name'' PNone) \<mapsto> w))"
proof -
  from assms(3) obtain w where w: "float_of_number (dict_get e ''reliability'' PNone) = Inr w"
    by (cases "float_of_number (dict_get e ''reliability'' PNone)") auto
  from assms(1) have v: "py_truthy (dict_get e ''name'' PNone)"
      "is_number (dict_get e ''reliability'' PNone)" "0 < num_val (dict_get e ''reliability'' PNone)"
    by (auto simp: skipped_entry_def missing_name_def positive_number_def)
  from float_of_number_pos [OF v(2) v(3) w] have "0 < w" .
  moreover have "build_step m (PDict e) = Inr (m(hash_key (dict_get e ''name'' PNone) \<mapsto> w))"
    using v w assms(2) by (simp add: build_step_def Let_def)
  ultimately show ?thesis by blast
qed

lemma build_loop_inv:
  assumes "\<forall>entry \<in> set entries. \<exists>e. entry = PDict e \<and>
             (skipped_entry e \<or>
              hashable (dict_get e ''name'' PNone) \<and>
              \<not> isl (float_of_number (dict_get e ''reliability'' PNone)))"
  shows "\<exists>m. build_loop m0 entries = Inr m \<and>
           (\<forall>k w. m k = Some w \<longrightarrow>
              m0 k = Some w \<or>
              0 < w \<and> (\<exists>e. PDict e \<in> set entries \<and> \<not> skipped_entry e \<and>
                            hash_key (dict_get e ''name'' PNone) = k))"
  using assms
proof (induction entries arbitrary: m0)
  case Nil
  show ?case by simp
next
  case (Cons entry entries)
  from Cons.prems obtain e where e: "entry = PDict e"
    and ok: "skipped_entry e \<or>
              hashable (dict_get e ''name'' PNone) \<and>
              \<not> isl (float_of_number (dict_get e ''reliability'' PNone))"
    by auto
  from Cons.prems have rest: "\<forall>entry \<in> set entries. \<exists>e. entry = PDict e \<and>
             (skipped_entry e \<or>
              hashable (dict_get e ''name'' PNone) \<and>
              \<not> isl (float_of_number (dict_get e ''reliability'' PNone)))"
    by simp
  show ?case
  proof (cases "skipped_entry e")
    case True
    from Cons.IH [OF rest, of m0] obtain m where m: "build_loop m0 entries = Inr m"
      and inv: "\<forall>k w. m k = Some w \<longrightarrow>
              m0 k = Some w \<or>
              0 < w \<and> (\<exists>e. PDict e \<in> set entries \<and> \<not> skipped_entry e \<and>
                            hash_key (dict_get e ''name'' PNone) = k)"
      by blast
    have "build_loop m0 (entry # entries) = Inr m"
      using m e build_step_skipped [OF True, of m0] by simp
    moreover have "\<forall>k w. m k = Some w \<longrightarrow>
              m0 k = Some w \<or>
              0 < w \<and> (\<exists>e. PDict e \<in> set (entry # entries) \<and> \<not> skipped_entry e \<and>
                            hash_key (dict_get e ''name'' PNone) = k)"
      using inv by (metis list.set_intros(2))
    ultimately show ?thesis by blast
  next
    case False
    with ok have h: "hashable (dict_get e ''name'' PNone)"
      and f: "\<not> isl (float_of_number (dict_get e ''reliability'' PNone))" by auto
    from build_step_valid [OF False h f, of m0] obtain w0 where w0: "0 < w0"
      and st: "build_step m0 (PDict e) = Inr (m0(hash_key (dict_get e ''name'' PNone) \<mapsto> w0))"
      by blast
    define m1 where "m1 = m0(hash_key (dict_get e ''name'' PNone) \<mapsto> w0)"
    from Cons.IH [OF rest, of m1] obtain m where m: "build_loop m1 entries = Inr m"
      and inv: "\<forall>k w. m k = Some w \<longrightarrow>
              m1 k = Some w \<or>
              0 < w \<and> (\<exists>e. PDict e \<in> set entries \<and> \<not> skipped_entry e \<and>
                            hash_key (dict_get e ''name'' PNone) = k)"
      by blast
    have "build_loop m0 (entry # entries) = Inr m"
      using m e st by (simp add: m1_def)
    moreover have "\<forall>k w. m k = Some w \<longrightarrow>
              m0 k = Some w \<or>
              0 < w \<and> (\<exists>e. PDict e \<in> set (entry # entries) \<and> \<not> skipped_entry e \<and>
                            hash_key (dict_get e ''name'' PNone) = k)"
    proof (intro allI impI)
      fix k w assume mk: "m k = Some w"
      from inv mk have "m1 k = Some w \<or>
              0 < w \<and> (\<exists>e. PDict e \<in> set entries \<and> \<not> skipped_entry e \<and>
                            hash_key (dict_get e ''name'' PNone) = k)" by blast
      then show "m0 k = Some w \<or>
              0 < w \<and> (\<exists>e. PDict e \<in> set (entry # entries) \<and> \<not> skipped_entry e \<and>
                            hash_key (dict_get e ''name'' PNone) = k)"
      proof
        assume m1k: "m1 k = Some w"
        show ?thesis
        proof (cases "k = hash_key (dict_get e ''name'' PNone)")
          case True
          with m1k have "w = w0" by (simp add: m1_def)
          with w0 True False e show ?thesis by auto
        next
          case False
          with m1k show ?thesis by (simp add: m1_def)
        qed
      next
        assume "0 < w \<and> (\<exists>e. PDict e \<in> set entries \<and> \<not> skipped_entry e \<and>
                            hash_key (dict_get e ''name'' PNone) = k)"
        then show ?thesis by auto
      qed
    qed
    ultimately show ?thesis by blast
  qed
qed

text \<open>
  C6, as amended: an entry (an object) that is missing a name, or whose reliability is not a
  positive number, is skipped: the loop body leaves the map unchanged and does not raise.
  When the entries iterated by the loop are objects, and every entry that is not skipped has
  a hashable name and a weight that \<open>float\<close> converts, the construction returns a map in
  which every stored weight is positive and every stored name is the name of an entry that is
  not skipped; so a source that no such entry names gets the default weight 1.0.
\<close>

theorem invalid_entries_skipped:
  assumes "py_iter (entries_of (sources settings)) = Inr entries"
    and "\<forall>entry \<in> set entries. \<exists>e. entry = PDict e \<and>
           (skipped_entry e \<or>
            hashable (dict_get e ''name'' PNone) \<and>
            \<not> isl (float_of_number (dict_get e ''reliability'' PNone)))"
  shows "(\<forall>e m'. skipped_entry e \<longrightarrow> build_step m' (PDict e) = Inr m') \<and>
         (\<exists>m. build_reliability_map settings = Inr m \<and>
            (\<forall>k w. m k = Some w \<longrightarrow>
               0 < w \<and> (\<exists>e. PDict e \<in> set entries \<and> \<not> skipped_entry e \<and>
                            hash_key (dict_get e ''name'' PNone) = k)) \<and>
            (\<forall>src. hashable src \<and>
                (\<forall>e. PDict e \<in> set entries \<and> \<not> skipped_entry e \<longrightarrow>
                     hash_key (dict_get e ''name'' PNone) \<noteq> hash_key src) \<longrightarrow>
                weight_for m src = Inr 1))"
proof -
  from build_loop_inv [OF assms(2), of Map.empty] obtain m
    where m: "build_loop Map.empty entries = Inr m"
      and inv: "\<forall>k w. m k = Some w \<longrightarrow>
               0 < w \<and> (\<exists>e. PDict e \<in> set entries \<and> \<not> skipped_entry e \<and>
                            hash_key (dict_get e ''name'' PNone) = k)"
    by auto
  have b: "build_reliability_map settings = Inr m"
    using assms(1) m by (simp add: build_reliability_map_def)
  have d: "\<forall>src. hashable src \<and>
                (\<forall>e. PDict e \<in> set entries \<and> \<not> skipped_entry e \<longrightarrow>
                     hash_key (dict_get e ''name'' PNone) \<noteq> hash_key src) \<longrightarrow>
                weight_for m src = Inr 1"
  proof (intro allI impI)
    fix src
    assume a: "hashable src \<and>
                (\<forall>e. PDict e \<in> set entries \<and> \<not> skipped_entry e \<longrightarrow>
                     hash_key (dict_get e ''name'' PNone) \<noteq> hash_key src)"
    have "m (hash_key src) = None"
    proof (cases "m (hash_key src)")
      case None then show ?thesis .
    next
      case (Some w)
      with inv a show ?thesis by blast
    qed
    with a show "weight_for m src = Inr 1" by (simp add: weight_for_def)
  qed
  from b inv d show ?thesis by (blast intro: build_step_skipped)
qed

text \<open>The entries \<open>{name: "A", reliability: 2.0}\<close>, \<open>{name: "C", reliability: -1}\<close> and
  \<open>{reliability: "bad"}\<close>: the last two are skipped and source \<open>"C"\<close> gets weight 1.0.\<close>

theorem invalid_entries_skipped_witness:
  "py_iter (entries_of (sources
      \<lparr>as_of_date = (2024, 1, 1), log_level = ''INFO'',
       sources = PList [PDict [(''name'', PStr ''A''), (''reliability'', PFloat 2)],
                        PDict [(''name'', PStr ''C''), (''reliability'', PInt (- 1))],
                        PDict [(''reliability'', PStr ''bad'')]]\<rparr>)) =
     Inr [PDict [(''name'', PStr ''A''), (''reliability'', PFloat 2)],
          PDict [(''name'', PStr ''C''), (''reliability'', PInt (- 1))],
          PDict [(''reliability'', PStr ''bad'')]] \<and>
   skipped_entry [(''name'', PStr ''C''), (''reliability'', PInt (- 1))] \<and>
   skipped_entry [(''reliability'', PStr ''bad'')] \<and>
   \<not> skipped_entry [(''name'', PStr ''A''), (''reliability'', PFloat 2)] \<and>
   (\<exists>m. build_reliability_map
      \<lparr>as_of_date = (2024, 1, 1), log_level = ''INFO'',
       sources = PList [PDict [(''name'', PStr ''A''), (''reliability'', PFloat 2)],
                        PDict [(''name'', PStr ''C''), (''reliability'', PInt (- 1))],
                        PDict [(''reliability'', PStr ''bad'')]]\<rparr> = Inr m \<and>
      weight_for m (PStr ''C'') = Inr 1)"
proof -
  let ?A = "[(''name'', PStr ''A''), (''reliability'', PFloat 2)]"
  let ?C = "[(''name'', PStr ''C''), (''reliability'', PInt (- 1))]"
  let ?B = "[(''reliability'', PStr ''bad'')]"
  let ?S = "\<lparr>as_of_date = (2024, 1, 1), log_level = ''INFO'',
             sources = PList [PDict ?A, PDict ?C, PDict ?B]\<rparr>"
  have it: "py_iter (entries_of (sources ?S)) = Inr [PDict ?A, PDict ?C, PDict ?B]"
    by (simp add: entries_of_def)
  have sA: "\<not> skipped_entry ?A"
    by (simp add: skipped_entry_def missing_name_def positive_number_def dict_get_def)
  have sC: "skipped_entry ?C"
    by (simp add: skipped_entry_def missing_name_def positive_number_def dict_get_def)
  have sB: "skipped_entry ?B"
    by (simp add: skipped_entry_def missing_name_def positive_number_def dict_get_def)
  have hyp: "\<forall>entry \<in> set [PDict ?A, PDict ?C, PDict ?B]. \<exists>e. entry = PDict e \<and>
           (skipped_entry e \<or>
            hashable (dict_get e ''name'' PNone) \<and>
            \<not> isl (float_of_number (dict_get e ''reliability'' PNone)))"
    using sC sB by (simp add: dict_get_def)
  from invalid_entries_skipped [OF it hyp] obtain m
    where m: "build_reliability_map ?S = Inr m"
      and d: "\<forall>src. hashable src \<and>
                (\<forall>e. PDict e \<in> set [PDict ?A, PDict ?C, PDict ?B] \<and> \<not> skipped_entry e \<longrightarrow>
                     hash_key (dict_get e ''name'' PNone) \<noteq> hash_key src) \<longrightarrow>
                weight_for m src = Inr 1"
    by blast
  have "\<forall>e. PDict e \<in> set [PDict ?A, PDict ?C, PDict ?B] \<and> \<not> skipped_entry e \<longrightarrow>
                     hash_key (dict_get e ''name'' PNone) \<noteq> hash_key (PStr ''C'')"
    using sC sB by (auto simp: dict_get_def)
  with d have "weight_for m (PStr ''C'') = Inr 1" by simp
  with m it sA sC sB show ?thesis by blast
qed

text \<open>
  The claim as stated fails for a source named by a skipped entry and by a valid one: after
  \<open>{name: "C", reliability: 2.0}\<close> and \<open>{name: "C", reliability: -1}\<close> the second entry is
  skipped, and source \<open>"C"\<close> has weight 2.0, not the default 1.0.
\<close>

theorem duplicate_name_counterexample:
  "skipped_entry [(''name'', PStr ''C''), (''reliability'', PInt (- 1))] \<and>
   (\<exists>m. build_reliability_map
      \<lparr>as_of_date = (2024, 1, 1), log_level = ''INFO'',
       sources = PList [PDict [(''name'', PStr ''C''), (''reliability'', PFloat 2)],
                        PDict [(''name'', PStr ''C''), (''reliability'', PInt (- 1))]]\<rparr> = Inr m \<and>
      weight_for m (PStr ''C'') = Inr 2)"
  by (simp add: skipped_entry_def missing_name_def positive_number_def dict_get_def
      build_reliability_map_def entries_of_def build_step_def weight_for_def)


section \<open>Reliability ranker: stable sort\<close>


lemma mset_insort_desc: "mset (insort_desc key x ys) = add_mset x (mset ys)"
  by (induction ys) auto



lemma mset_py_sorted_desc: "mset (py_sorted_desc key xs) = mset xs"
  by (induction xs) (simp_all add: py_sorted_desc_def mset_insort_desc)



lemma py_slice_take: "py_slice xs 0 k = take (nat (if k < 0 then k + int (length xs) else k)) xs"
  by (auto simp: py_slice_def Let_def min_def max_def)

lemma py_slice_all: "int (length xs) \<le> k \<Longrightarrow> py_slice xs 0 k = xs"
  by (simp add: py_slice_take)






section \<open>Reliability ranker: weighting\<close>

lemma dict_get_update:
  "dict_get (AList.update k v d) k' dflt = (if k' = k then v else dict_get d k' dflt)"
  by (simp add: dict_get_def update_conv')

lemma score_of_malformed:
  "malformed_score str_to_float res \<Longrightarrow> score_of str_to_float res = 0"
  by (auto simp: malformed_score_def score_of_def dict_get_def isl_def bit_length.simps
      float_of_int_def split: option.splits)

lemma weigh_one_hashable:
  "hashable (dict_get res ''source_name'' PNone) \<Longrightarrow>
   weigh_one str_to_float fmul reliability_map res =
     Inr (AList.update ''weighted_score''
            (PFloat (fmul (score_of str_to_float res)
               (case reliability_map (hash_key (dict_get res ''source_name'' PNone)) of
                  None \<Rightarrow> 1 | Some w \<Rightarrow> w))) res)"
  by (simp add: weigh_one_def weight_for_def)

lemma apply_weights_hashable:
  assumes "\<forall>res\<in>set raw. hashable (dict_get res ''source_name'' PNone)"
  shows "apply_weights str_to_float fmul reliability_map raw =
     Inr (map (\<lambda>res. AList.update ''weighted_score''
            (PFloat (fmul (score_of str_to_float res)
               (case reliability_map (hash_key (dict_get res ''source_name'' PNone)) of
                  None \<Rightarrow> 1 | Some w \<Rightarrow> w))) res) raw)"
  using assms by (induction raw) (simp_all add: weigh_one_hashable)

text \<open>
  C7, as amended: for a result whose score is missing or rejected by \<open>float\<close>, the score is
  taken as 0.0 and nothing is raised: when the source names are hashable the weighting
  returns, the record is in the weighted list with \<open>weighted_score\<close> 0.0 (the product of 0.0
  and a finite weight), and the ranking returns a list drawn from the weighted list; the
  record is in the output when the number of results is at most \<open>top_k\<close>.
\<close>

theorem malformed_score_is_zero:
  assumes "\<forall>w. fmul 0 w = 0"
    and "\<forall>r \<in> set raw_results. hashable (dict_get r ''source_name'' PNone)"
    and "i < length raw_results"
    and "malformed_score str_to_float (raw_results ! i)"
  shows "score_of str_to_float (raw_results ! i) = 0 \<and>
     (\<exists>weighted ranked.
        apply_weights str_to_float fmul reliability_map raw_results = Inr weighted \<and>
        length weighted = length raw_results \<and>
        weighted ! i = AList.update ''weighted_score'' (PFloat 0) (raw_results ! i) \<and>
        dict_get (weighted ! i) ''weighted_score'' PNone = PFloat 0 \<and>
        rank str_to_float fmul reliability_map top_k raw_results = Inr ranked \<and>
        set ranked \<subseteq> set weighted \<and>
        (int (length raw_results) \<le> top_k \<longrightarrow> weighted ! i \<in> set ranked))"
proof -
  let ?w = "\<lambda>res. AList.update ''weighted_score''
            (PFloat (fmul (score_of str_to_float res)
               (case reliability_map (hash_key (dict_get res ''source_name'' PNone)) of
                  None \<Rightarrow> 1 | Some w \<Rightarrow> w))) res"
  let ?weighted = "map ?w raw_results"
  let ?sorted = "py_sorted_desc weighted_key ?weighted"
  have z: "score_of str_to_float (raw_results ! i) = 0"
    by (rule score_of_malformed [OF assms(4)])
  have aw: "apply_weights str_to_float fmul reliability_map raw_results = Inr ?weighted"
    by (rule apply_weights_hashable [OF assms(2)])
  have len: "length ?weighted = length raw_results" by simp
  have wi: "?weighted ! i = AList.update ''weighted_score'' (PFloat 0) (raw_results ! i)"
    using assms(1,3) z by simp
  have dg: "dict_get (?weighted ! i) ''weighted_score'' PNone = PFloat 0"
    by (simp only: wi dict_get_update) simp
  have rk: "rank str_to_float fmul reliability_map top_k raw_results =
      Inr (py_slice ?sorted 0 top_k)"
    by (simp only: rank_def aw sum.case)
  have ss: "set ?sorted = set ?weighted"
    by (rule mset_eq_setD [OF mset_py_sorted_desc])
  have sub: "set (py_slice ?sorted 0 top_k) \<subseteq> set ?weighted"
    unfolding ss [symmetric] py_slice_take by (rule set_take_subset)
  have lens: "length ?sorted = length raw_results"
    using mset_eq_length [OF mset_py_sorted_desc [of weighted_key ?weighted]] by simp
  have mem: "int (length raw_results) \<le> top_k \<longrightarrow> ?weighted ! i \<in> set (py_slice ?sorted 0 top_k)"
  proof
    assume "int (length raw_results) \<le> top_k"
    then have "py_slice ?sorted 0 top_k = ?sorted"
      by (intro py_slice_all) (simp only: lens)
    moreover have "?weighted ! i \<in> set ?weighted"
      by (rule nth_mem) (simp only: len assms(3))
    ultimately show "?weighted ! i \<in> set (py_slice ?sorted 0 top_k)"
      by (simp only: ss)
  qed
  from z aw len wi dg rk sub mem show ?thesis by blast
qed

lemma example_malformed_weighted:
  "apply_weights (\<lambda>s. None) (*) Map.empty
     [[(''source_name'', PStr ''A''), (''score'', PNone)],
      [(''source_name'', PStr ''B''), (''score'', PFloat 1)]] =
   Inr [[(''source_name'', PStr ''A''), (''score'', PNone), (''weighted_score'', PFloat 0)],
        [(''source_name'', PStr ''B''), (''score'', PFloat 1), (''weighted_score'', PFloat 1)]]"
  by (simp add: weigh_one_def weight_for_def score_of_def dict_get_def)

lemma example_malformed_ranked:
  "rank (\<lambda>s. None) (*) Map.empty k
     [[(''source_name'', PStr ''A''), (''score'', PNone)],
      [(''source_name'', PStr ''B''), (''score'', PFloat 1)]] =
   Inr (py_slice
        [[(''source_name'', PStr ''B''), (''score'', PFloat 1), (''weighted_score'', PFloat 1)],
         [(''source_name'', PStr ''A''), (''score'', PNone), (''weighted_score'', PFloat 0)]] 0 k)"
  by (simp only: rank_def example_malformed_weighted sum.case)
    (simp add: py_sorted_desc_def weighted_key_def dict_get_def)

text \<open>A result with score \<open>None\<close> and one with score 1.0, \<open>top_k = 5\<close>: both are returned,
  the malformed one last with \<open>weighted_score\<close> 0.0.\<close>

theorem malformed_score_is_zero_witness:
  "malformed_score (\<lambda>s. None) [(''source_name'', PStr ''A''), (''score'', PNone)] \<and>
   rank (\<lambda>s. None) (*) Map.empty 5
     [[(''source_name'', PStr ''A''), (''score'', PNone)],
      [(''source_name'', PStr ''B''), (''score'', PFloat 1)]] =
   Inr [[(''source_name'', PStr ''B''), (''score'', PFloat 1), (''weighted_score'', PFloat 1)],
        [(''source_name'', PStr ''A''), (''score'', PNone), (''weighted_score'', PFloat 0)]] \<and>
   (\<exists>weighted ranked.
      apply_weights (\<lambda>s. None) (*) Map.empty
        [[(''source_name'', PStr ''A''), (''score'', PNone)],
         [(''source_name'', PStr ''B''), (''score'', PFloat 1)]] = Inr weighted \<and>
      weighted ! 0 =
        [(''source_name'', PStr ''A''), (''score'', PNone), (''weighted_score'', PFloat 0)] \<and>
      rank (\<lambda>s. None) (*) Map.empty 5
        [[(''source_name'', PStr ''A''), (''score'', PNone)],
         [(''source_name'', PStr ''B''), (''score'', PFloat 1)]] = Inr ranked \<and>
      weighted ! 0 \<in> set ranked)"
proof -
  let ?raw = "[[(''source_name'', PStr ''A''), (''score'', PNone)],
               [(''source_name'', PStr ''B''), (''score'', PFloat 1)]]"
  have h1: "\<forall>w::real. 0 * w = 0" by simp
  have h2: "\<forall>r \<in> set ?raw. hashable (dict_get r ''source_name'' PNone)"
    by (simp add: dict_get_def)
  have h3: "0 < length ?raw" by simp
  have m: "malformed_score (\<lambda>s. None) [(''source_name'', PStr ''A''), (''score'', PNone)]"
    by (simp add: malformed_score_def)
  then have h4: "malformed_score (\<lambda>s. None) (?raw ! 0)" by simp
  have r: "rank (\<lambda>s. None) (*) Map.empty 5 ?raw =
     Inr [[(''source_name'', PStr ''B''), (''score'', PFloat 1), (''weighted_score'', PFloat 1)],
          [(''source_name'', PStr ''A''), (''score'', PNone), (''weighted_score'', PFloat 0)]]"
    by (simp add: example_malformed_ranked py_slice_def)
  from malformed_score_is_zero [where fmul = "(*)" and reliability_map = Map.empty and top_k = 5,
      OF h1 h2 h3 h4]
  obtain weighted ranked where
    "apply_weights (\<lambda>s. None) (*) Map.empty ?raw = Inr weighted"
    "weighted ! 0 = AList.update ''weighted_score'' (PFloat 0) (?raw ! 0)"
    "rank (\<lambda>s. None) (*) Map.empty 5 ?raw = Inr ranked"
    "int (length ?raw) \<le> 5 \<longrightarrow> weighted ! 0 \<in> set ranked"
    by blast
  then have "apply_weights (\<lambda>s. None) (*) Map.empty ?raw = Inr weighted \<and>
      weighted ! 0 =
        [(''source_name'', PStr ''A''), (''score'', PNone), (''weighted_score'', PFloat 0)] \<and>
      rank (\<lambda>s. None) (*) Map.empty 5 ?raw = Inr ranked \<and>
      weighted ! 0 \<in> set ranked"
    by simp
  with m r show ?thesis by blast
qed

text \<open>
  The claim as stated fails when there are more results than \<open>top_k\<close>: with the same two
  results and \<open>top_k = 1\<close> the record with the malformed score is sorted last and cut off by
  \<open>ranked[:top_k]\<close>; it does not appear in the output.
\<close>

theorem truncated_record_counterexample:
  "malformed_score (\<lambda>s. None) [(''source_name'', PStr ''A''), (''score'', PNone)] \<and>
   rank (\<lambda>s. None) (*) Map.empty 1
     [[(''source_name'', PStr ''A''), (''score'', PNone)],
      [(''source_name'', PStr ''B''), (''score'', PFloat 1)]] =
   Inr [[(''source_name'', PStr ''B''), (''score'', PFloat 1), (''weighted_score'', PFloat 1)]]"
  by (simp add: malformed_score_def example_malformed_ranked py_slice_def)

text \<open>
  C4, as amended: for a result whose score \<open>float\<close> converts to \<open>s\<close> (source names hashable),
  the ranker stores \<open>weighted_score = s * w\<close>, a float product, where \<open>w\<close> is
  \<open>reliability_map.get(source_name, 1.0)\<close>; for a source absent from the map \<open>w\<close> is 1.0 and
  \<open>weighted_score\<close> is \<open>s\<close>; and \<open>s\<close> is the raw score when the score is a float.
\<close>

theorem weighted_score_formula:
  assumes "\<forall>x. fmul x 1 = x"
    and "\<forall>r \<in> set raw_results. hashable (dict_get r ''source_name'' PNone)"
    and "i < length raw_results"
    and "py_float str_to_float (dict_get (raw_results ! i) ''score'' (PInt 0)) = Inr s"
  shows "\<exists>weighted w.
     apply_weights str_to_float fmul reliability_map raw_results = Inr weighted \<and>
     length weighted = length raw_results \<and>
     weight_for reliability_map (dict_get (raw_results ! i) ''source_name'' PNone) = Inr w \<and>
     w = (case reliability_map (hash_key (dict_get (raw_results ! i) ''source_name'' PNone)) of
            None \<Rightarrow> 1 | Some w' \<Rightarrow> w') \<and>
     weighted ! i = AList.update ''weighted_score'' (PFloat (fmul s w)) (raw_results ! i) \<and>
     dict_get (weighted ! i) ''weighted_score'' PNone = PFloat (fmul s w) \<and>
     (reliability_map (hash_key (dict_get (raw_results ! i) ''source_name'' PNone)) = None \<longrightarrow>
        dict_get (weighted ! i) ''weighted_score'' PNone = PFloat s) \<and>
     (\<forall>r. dict_get (raw_results ! i) ''score'' (PInt 0) = PFloat r \<longrightarrow> s = r)"
proof -
  let ?w = "\<lambda>res. AList.update ''weighted_score''
            (PFloat (fmul (score_of str_to_float res)
               (case reliability_map (hash_key (dict_get res ''source_name'' PNone)) of
                  None \<Rightarrow> 1 | Some w \<Rightarrow> w))) res"
  let ?weighted = "map ?w raw_results"
  let ?wt = "case reliability_map (hash_key (dict_get (raw_results ! i) ''source_name'' PNone)) of
            None \<Rightarrow> 1 | Some w' \<Rightarrow> w'"
  have sc: "score_of str_to_float (raw_results ! i) = s"
    using assms(4) by (simp add: score_of_def)
  have aw: "apply_weights str_to_float fmul reliability_map raw_results = Inr ?weighted"
    by (rule apply_weights_hashable [OF assms(2)])
  have len: "length ?weighted = length raw_results" by simp
  have h: "hashable (dict_get (raw_results ! i) ''source_name'' PNone)"
    using assms(2,3) by simp
  then have wf: "weight_for reliability_map (dict_get (raw_results ! i) ''source_name'' PNone) = Inr ?wt"
    by (simp add: weight_for_def)
  have wi: "?weighted ! i = AList.update ''weighted_score'' (PFloat (fmul s ?wt)) (raw_results ! i)"
    using assms(3) sc by simp
  have dg: "dict_get (?weighted ! i) ''weighted_score'' PNone = PFloat (fmul s ?wt)"
    by (simp only: wi dict_get_update) simp
  have ab: "reliability_map (hash_key (dict_get (raw_results ! i) ''source_name'' PNone)) = None \<longrightarrow>
        dict_get (?weighted ! i) ''weighted_score'' PNone = PFloat s"
  proof
    assume n: "reliability_map (hash_key (dict_get (raw_results ! i) ''source_name'' PNone)) = None"
    have "?wt = 1" by (simp only: n option.case)
    then show "dict_get (?weighted ! i) ''weighted_score'' PNone = PFloat s"
      using dg assms(1) by simp
  qed
  have fl: "\<forall>r. dict_get (raw_results ! i) ''score'' (PInt 0) = PFloat r \<longrightarrow> s = r"
    using assms(4) by auto
  show ?thesis
    by (intro exI [of _ ?weighted] exI [of _ ?wt] conjI aw len wf refl wi dg ab fl)
qed

lemma example_weights:
  "apply_weights (\<lambda>s. None) (*) [PStr ''A'' \<mapsto> 2]
     [[(''source_name'', PStr ''A''), (''score'', PFloat 3)],
      [(''source_name'', PStr ''B''), (''score'', PFloat 2)]] =
   Inr [[(''source_name'', PStr ''A''), (''score'', PFloat 3), (''weighted_score'', PFloat 6)],
        [(''source_name'', PStr ''B''), (''score'', PFloat 2), (''weighted_score'', PFloat 2)]]"
  by (simp add: weigh_one_def weight_for_def score_of_def dict_get_def)

text \<open>Source \<open>"A"\<close> with weight 2.0 and score 3.0 gets 6.0; source \<open>"B"\<close>, absent from the
  map, keeps its score 2.0.\<close>

theorem weighted_score_formula_witness:
  "apply_weights (\<lambda>s. None) (*) [PStr ''A'' \<mapsto> 2]
     [[(''source_name'', PStr ''A''), (''score'', PFloat 3)],
      [(''source_name'', PStr ''B''), (''score'', PFloat 2)]] =
   Inr [[(''source_name'', PStr ''A''), (''score'', PFloat 3), (''weighted_score'', PFloat 6)],
        [(''source_name'', PStr ''B''), (''score'', PFloat 2), (''weighted_score'', PFloat 2)]] \<and>
   (\<exists>weighted w.
      apply_weights (\<lambda>s. None) (*) [PStr ''A'' \<mapsto> 2]
        [[(''source_name'', PStr ''A''), (''score'', PFloat 3)],
         [(''source_name'', PStr ''B''), (''score'', PFloat 2)]] = Inr weighted \<and>
      weight_for [PStr ''A'' \<mapsto> 2] (PStr ''A'') = Inr w \<and> w = 2 \<and>
      dict_get (weighted ! 0) ''weighted_score'' PNone = PFloat (3 * w)) \<and>
   (\<exists>weighted w.
      apply_weights (\<lambda>s. None) (*) [PStr ''A'' \<mapsto> 2]
        [[(''source_name'', PStr ''A''), (''score'', PFloat 3)],
         [(''source_name'', PStr ''B''), (''score'', PFloat 2)]] = Inr weighted \<and>
      weight_for [PStr ''A'' \<mapsto> 2] (PStr ''B'') = Inr w \<and> w = 1 \<and>
      dict_get (weighted ! 1) ''weighted_score'' PNone = PFloat 2)"
proof -
  let ?raw = "[[(''source_name'', PStr ''A''), (''score'', PFloat 3)],
               [(''source_name'', PStr ''B''), (''score'', PFloat 2)]]"
  let ?m = "[PStr ''A'' \<mapsto> (2::real)]"
  have h1: "\<forall>x::real. x * 1 = x" by simp
  have h2: "\<forall>r \<in> set ?raw. hashable (dict_get r ''source_name'' PNone)"
    by (simp add: dict_get_def)
  have i0: "0 < length ?raw" and i1: "1 < length ?raw" by simp_all
  have s0: "py_float (\<lambda>s. None) (dict_get (?raw ! 0) ''score'' (PInt 0)) = Inr 3"
    by (simp add: dict_get_def)
  have s1: "py_float (\<lambda>s. None) (dict_get (?raw ! 1) ''score'' (PInt 0)) = Inr 2"
    by (simp add: dict_get_def)
  have a: "\<exists>weighted w. apply_weights (\<lambda>s. None) (*) ?m ?raw = Inr weighted \<and>
      weight_for ?m (PStr ''A'') = Inr w \<and> w = 2 \<and>
      dict_get (weighted ! 0) ''weighted_score'' PNone = PFloat (3 * w)"
    using weighted_score_formula [where fmul = "(*)" and reliability_map = ?m, OF h1 h2 i0 s0]
    by (fastforce simp: dict_get_def)
  have b: "\<exists>weighted w. apply_weights (\<lambda>s. None) (*) ?m ?raw = Inr weighted \<and>
      weight_for ?m (PStr ''B'') = Inr w \<and> w = 1 \<and>
      dict_get (weighted ! 1) ''weighted_score'' PNone = PFloat 2"
    using weighted_score_formula [where fmul = "(*)" and reliability_map = ?m, OF h1 h2 i1 s1]
    by (fastforce simp: dict_get_def)
  from example_weights a b show ?thesis by blast
qed

lemma rank_single_int:
  "rank (\<lambda>s. None) (*) Map.empty 5 [[(''source_name'', PStr ''A''), (''score'', PInt i)]] =
   Inr [[(''source_name'', PStr ''A''), (''score'', PInt i),
         (''weighted_score'', PFloat (case float_of_int i of Inl e \<Rightarrow> 0 | Inr s \<Rightarrow> s))]]"
  by (simp add: rank_def weigh_one_def weight_for_def score_of_def dict_get_def py_sorted_desc_def
      py_slice_def)

text \<open>
  The claim as stated, for every numeric score, fails for integers that are not floats: the
  score \<open>2 ** 1024\<close> makes \<open>float\<close> raise \<open>OverflowError\<close>, which the \<open>except\<close> clause turns
  into the score 0.0, so \<open>weighted_score\<close> is 0.0; and the score \<open>2 ** 53 + 1\<close> of a source
  absent from the map gets \<open>weighted_score = 2 ** 53\<close>, not the raw score.
\<close>

theorem numeric_score_counterexample:
  "is_number (PInt (2 ^ 1024)) \<and>
   rank (\<lambda>s. None) (*) Map.empty 5
     [[(''source_name'', PStr ''A''), (''score'', PInt (2 ^ 1024))]] =
   Inr [[(''source_name'', PStr ''A''), (''score'', PInt (2 ^ 1024)),
         (''weighted_score'', PFloat 0)]] \<and>
   rank (\<lambda>s. None) (*) Map.empty 5
     [[(''source_name'', PStr ''A''), (''score'', PInt (2 ^ 53 + 1))]] =
   Inr [[(''source_name'', PStr ''A''), (''score'', PInt (2 ^ 53 + 1)),
         (''weighted_score'', PFloat (2 ^ 53))]]"
proof -
  have o: "float_of_int (2 ^ 1024) = Inl OverflowError"
    by (rule trans [OF float_of_int_pow2]) simp_all
  have a: "rank (\<lambda>s. None) (*) Map.empty 5
     [[(''source_name'', PStr ''A''), (''score'', PInt (2 ^ 1024))]] =
   Inr [[(''source_name'', PStr ''A''), (''score'', PInt (2 ^ 1024)),
         (''weighted_score'', PFloat 0)]]"
    by (simp only: rank_single_int o sum.case)
  have b: "rank (\<lambda>s. None) (*) Map.empty 5
     [[(''source_name'', PStr ''A''), (''score'', PInt (2 ^ 53 + 1))]] =
   Inr [[(''source_name'', PStr ''A''), (''score'', PInt (2 ^ 53 + 1)),
         (''weighted_score'', PFloat (2 ^ 53))]]"
    by (simp only: rank_single_int float_rounds sum.case)
  show ?thesis by (rule conjI [OF _ conjI [OF a b]]) simp
qed

end
